theory Spec2Isabelle
  imports Main "HOL-Library.Sublist" "HOL-Library.AList" "HOL-Library.Multiset"
begin

section \<open>The data model of package rbac\<close>

text \<open>
  Go's \<open>error\<close> values are messages built by \<open>errors.New\<close> and \<open>fmt.Errorf\<close>, or
  opaque errors handed back by the Kubernetes client; both are a message here. A method
  call on a nil interface value panics; the panic is a value of the error type as well.
\<close>

datatype go_error = ErrorsNew string | NilPointerPanic

text \<open>\<open>schema.GroupResource\<close> and the \<open>ACLConfig\<close> struct of rbac.go.\<close>

record GroupResource =
  Group :: string
  Resource :: string

record ACLConfig =
  groupRes :: GroupResource
  verb :: string

definition MetricsACLConfig :: ACLConfig where
  "MetricsACLConfig =
     \<lparr>groupRes = \<lparr>Group = ''cluster.open-cluster-management.io'', Resource = ''managedclusters''\<rparr>,
      verb = ''metrics/''\<rparr>"

text \<open>
  \<open>authorizationv1.ResourceRule\<close>, and the part of the status of a
  \<open>SelfSubjectRulesReview\<close> response that rbac.go reads.
\<close>

record ResourceRule =
  Verbs :: "string list"
  APIGroups :: "string list"
  Resources :: "string list"
  ResourceNames :: "string list"

record SubjectRulesReviewStatus =
  ResourceRules :: "ResourceRule list"
  EvaluationError :: string

text \<open>
  The Kubernetes client is used for one call only,
  \<open>kclient.AuthorizationV1().SelfSubjectRulesReviews().Create\<close>, whose request carries
  the namespace and which answers with an error or a response. An interface of type
  \<open>kubernetes.Interface\<close> may be nil: \<open>kube_client option\<close>.
\<close>

type_synonym kube_client = "string \<Rightarrow> go_error + SubjectRulesReviewStatus"

text \<open>The fields of \<open>rest.Config\<close> that rbac.go reads or writes.\<close>

record rest_config =
  Host :: string
  APIPath :: string
  CAFile :: string
  CAData :: string
  ServerName :: string
  Insecure :: bool
  BearerToken :: string
  BearerTokenFile :: string

record AccessReviewer =
  kubeConfig :: "rest_config option"
  kubeClient :: "kube_client option"

text \<open>
  A Go map with string keys is an association list with distinct keys: \<open>map_of\<close> reads
  it, \<open>AList.update\<close> stores into it. The position of an entry in the list is not
  observable in Go; what a \<open>range\<close> over the map sees is chosen by the runtime (below).
\<close>

type_synonym 'v gomap = "(string \<times> 'v) list"

text \<open>Reading a missing key of a \<open>map[string][]string\<close> gives the nil slice.\<close>

definition index :: "string list gomap \<Rightarrow> string \<Rightarrow> string list" where
  "index m k = (case map_of m k of None \<Rightarrow> [] | Some v \<Rightarrow> v)"

text \<open>
  The Go specification leaves the iteration order of \<open>range\<close> over a map open, and
  the runtime randomises it. The order is therefore an input of the model: one
  permutation of the entries for the loop over \<open>resourceACLs\<close>, and one for each
  cluster's loop over \<open>metricsAccessMap\<close>.
\<close>

record map_iteration =
  rangeResourceACLs :: "(string \<times> string list) list \<Rightarrow> (string \<times> string list) list"
  rangeMetricsAccessMap :: "string \<Rightarrow> (string \<times> bool) list \<Rightarrow> (string \<times> bool) list"

definition valid_iteration :: "map_iteration \<Rightarrow> bool" where
  "valid_iteration it \<longleftrightarrow>
     (\<forall>m. mset (rangeResourceACLs it m) = mset m) \<and>
     (\<forall>c m. mset (rangeMetricsAccessMap it c m) = mset m)"

section \<open>Library functions\<close>

definition Contains :: "string list \<Rightarrow> string \<Rightarrow> bool" where
  "Contains s v \<longleftrightarrow> v \<in> set s"

definition HasPrefix :: "string \<Rightarrow> string \<Rightarrow> bool" where
  "HasPrefix s p \<longleftrightarrow> prefix p s"

definition TrimPrefix :: "string \<Rightarrow> string \<Rightarrow> string" where
  "TrimPrefix s p = (if HasPrefix s p then drop (length p) s else s)"

section \<open>NewAccessReviewer and getKubeClientForUser\<close>

definition NewAccessReviewer ::
  "rest_config option \<Rightarrow> kube_client option \<Rightarrow> go_error + AccessReviewer" where
  "NewAccessReviewer kConfig kClient =
     (if kClient = None \<and> kConfig = None then
        Inl (ErrorsNew ''one of either kubeConfig or kubeClient must be a non-nil value'')
      else if kClient \<noteq> None \<and> kConfig \<noteq> None then
        Inl (ErrorsNew ''only one of either kubeConfig or kubeClient must be a non-nil value'')
      else (case kConfig of
              Some configCopy \<Rightarrow> Inr \<lparr>kubeConfig = Some configCopy, kubeClient = None\<rparr>
            | None \<Rightarrow> Inr \<lparr>kubeConfig = None, kubeClient = kClient\<rparr>))"

text \<open>
  \<open>kubernetes.NewForConfig\<close> belongs to client-go; it is the parameter \<open>newForConfig\<close>.
\<close>

definition getKubeClientForUser ::
  "(rest_config \<Rightarrow> go_error + kube_client) \<Rightarrow> AccessReviewer \<Rightarrow> string
     \<Rightarrow> go_error + kube_client option" where
  "getKubeClientForUser newForConfig r userToken =
     (case kubeConfig r of
        Some cfg \<Rightarrow>
          if userToken \<noteq> [] then
            (case newForConfig
                    \<lparr>Host = Host cfg, APIPath = APIPath cfg, CAFile = CAFile cfg,
                     CAData = CAData cfg, ServerName = ServerName cfg, Insecure = Insecure cfg,
                     BearerToken = userToken, BearerTokenFile = []\<rparr> of
               Inl err \<Rightarrow> Inl err
             | Inr kclient \<Rightarrow> Inr (Some kclient))
          else Inl (ErrorsNew (''failed to get a client to connect to the kubernetes cluster:'' @
                 ''When KubeConfig is provided, a valid userToken must be set on all access review calls''))
      | None \<Rightarrow> Inr (kubeClient r))"

section \<open>makeSubjectRulesReviewForUser\<close>

text \<open>
  The function returns the rules or the error; what it writes with the unconditional
  \<open>klog.Infof\<close> is the first component of the result (namespace and evaluation error of
  the message). The \<open>klog.V(2)\<close> lines are diagnostics that depend on the verbosity and
  are left out everywhere.
\<close>

datatype log_line = EvaluationErrorLine string string

definition makeSubjectRulesReviewForUser ::
  "kube_client option \<Rightarrow> string \<Rightarrow> log_line list \<times> (go_error + ResourceRule list)" where
  "makeSubjectRulesReviewForUser kclient namespace =
     (let namespace' = (if namespace = [] then ''$ Invalid $'' else namespace) in
      case kclient of
        None \<Rightarrow> ([], Inl NilPointerPanic)
      | Some create \<Rightarrow>
          (case create namespace' of
             Inl err \<Rightarrow> ([], Inl err)
           | Inr sarrStatus \<Rightarrow>
               ((if EvaluationError sarrStatus \<noteq> []
                 then [EvaluationErrorLine namespace' (EvaluationError sarrStatus)] else []),
                Inr (ResourceRules sarrStatus))))"

section \<open>addUniqueItems and GetResourceAccess\<close>

text \<open>
  \<open>addUniqueItems\<close> appends to the slice it is given. Its callers store the result under
  the key the slice was read from, and the slice of every key starts as the nil slice, so
  no two entries share a backing array: slices are values here.
\<close>

fun addUniqueItems :: "string list \<Rightarrow> string list \<Rightarrow> string list" where
  "addUniqueItems resultList [] = resultList"
| "addUniqueItems resultList (item # itemsToAdd) =
     addUniqueItems (if \<not> Contains resultList item then resultList @ [item] else resultList)
       itemsToAdd"

text \<open>The loop over \<open>rule.ResourceNames\<close> (rbac.go, lines 227 to 235).\<close>

fun ruleNamesLoop ::
  "string list \<Rightarrow> string list \<Rightarrow> string list gomap \<Rightarrow> string list \<Rightarrow> string list gomap" where
  "ruleNamesLoop resourcenames verbs results [] = results"
| "ruleNamesLoop resourcenames verbs results (ruleResourceName # rest) =
     ruleNamesLoop resourcenames verbs
       (if length resourcenames = 0 \<or> Contains resourcenames ruleResourceName
        then AList.update ruleResourceName
               (addUniqueItems (index results ruleResourceName) verbs) results
        else results)
       rest"

text \<open>The loop over the requested names for a rule without names (lines 241 to 244).\<close>

fun allNamesLoop :: "string list \<Rightarrow> string list gomap \<Rightarrow> string list \<Rightarrow> string list gomap" where
  "allNamesLoop verbs results [] = results"
| "allNamesLoop verbs results (rname # rest) =
     allNamesLoop verbs (AList.update rname (addUniqueItems (index results rname) verbs) results)
       rest"

text \<open>The body of the loop over the rules (lines 212 to 249).\<close>

definition ruleBody ::
  "GroupResource \<Rightarrow> string list \<Rightarrow> string list gomap \<Rightarrow> ResourceRule \<Rightarrow> string list gomap" where
  "ruleBody gr resourcenames results rule =
     (let ruleMatchesAPIGroup =
            (Contains (APIGroups rule) (Group gr) \<or> Contains (APIGroups rule) ''*'');
          ruleMatchesResource =
            (Contains (Resources rule) (Resource gr) \<or> Contains (Resources rule) ''*'')
      in if \<not> (ruleMatchesAPIGroup \<and> ruleMatchesResource) then results
         else if length (ResourceNames rule) \<noteq> 0 then
           ruleNamesLoop resourcenames (Verbs rule) results (ResourceNames rule)
         else if length resourcenames \<noteq> 0 then
           allNamesLoop (Verbs rule) results resourcenames
         else AList.update ''*'' (addUniqueItems (index results ''*'') (Verbs rule)) results)"

fun rulesLoop ::
  "GroupResource \<Rightarrow> string list \<Rightarrow> string list gomap \<Rightarrow> ResourceRule list
     \<Rightarrow> string list gomap" where
  "rulesLoop gr resourcenames results [] = results"
| "rulesLoop gr resourcenames results (rule # rest) =
     rulesLoop gr resourcenames (ruleBody gr resourcenames results rule) rest"

text \<open>The loop that adds the missing requested names (lines 255 to 259).\<close>

fun missingLoop :: "string list gomap \<Rightarrow> string list \<Rightarrow> string list gomap" where
  "missingLoop results [] = results"
| "missingLoop results (rname # rest) =
     missingLoop (if map_of results rname = None then AList.update rname [] results else results)
       rest"

definition GetResourceAccess ::
  "kube_client option \<Rightarrow> GroupResource \<Rightarrow> string list \<Rightarrow> string
     \<Rightarrow> go_error + string list gomap" where
  "GetResourceAccess kclient gr resourcenames namespace =
     (case snd (makeSubjectRulesReviewForUser kclient namespace) of
        Inl err \<Rightarrow> Inl err
      | Inr resourceRules \<Rightarrow>
          (let resourceAccessResults = rulesLoop gr resourcenames [] resourceRules
           in Inr (if length resourcenames \<noteq> 0
                   then missingLoop resourceAccessResults resourcenames
                   else resourceAccessResults)))"

section \<open>The matching rules in the words of the specification\<close>

text \<open>
  A rule matches the target iff the target's API group or \<open>"*"\<close> is among the rule's API
  groups, and the target's resource type or \<open>"*"\<close> is among the rule's resource types.
\<close>

definition rule_matches :: "GroupResource \<Rightarrow> ResourceRule \<Rightarrow> bool" where
  "rule_matches target rule \<longleftrightarrow>
     (Group target \<in> set (APIGroups rule) \<or> ''*'' \<in> set (APIGroups rule)) \<and>
     (Resource target \<in> set (Resources rule) \<or> ''*'' \<in> set (Resources rule))"

text \<open>
  The entries a rule contributes its verbs to: none when it does not match; its own names
  that are wanted (all of them when nothing is wanted) when it has names; every wanted
  name when it has no names and names are wanted; the sentinel \<open>"*"\<close> otherwise.
\<close>

definition rule_targets :: "GroupResource \<Rightarrow> string list \<Rightarrow> ResourceRule \<Rightarrow> string set" where
  "rule_targets target wantedNames rule =
     (if \<not> rule_matches target rule then {}
      else if ResourceNames rule \<noteq> [] then
        (if wantedNames = [] then set (ResourceNames rule)
         else set (ResourceNames rule) \<inter> set wantedNames)
      else if wantedNames \<noteq> [] then set wantedNames
      else {''*''})"

text \<open>The verbs of the rules that contribute to an entry, merged in the order of the rules.\<close>

definition merged_verbs :: "GroupResource \<Rightarrow> string list \<Rightarrow> ResourceRule list \<Rightarrow> string \<Rightarrow> string list" where
  "merged_verbs target wantedNames rules name =
     foldl addUniqueItems []
       (map Verbs (filter (\<lambda>rule. name \<in> rule_targets target wantedNames rule) rules))"

text \<open>
  The namespaces a verb list grants: the rest of every verb that starts with the prefix,
  and the sentinel \<open>"*"\<close> when the verb \<open>"*"\<close> is in the list.
\<close>

definition decoded_namespaces :: "string \<Rightarrow> string list \<Rightarrow> string set" where
  "decoded_namespaces verbPrefix verbs =
     set (map (drop (length verbPrefix)) (filter (prefix verbPrefix) verbs)) \<union>
     (if ''*'' \<in> set verbs then {''*''} else {})"

section \<open>GetMetricsAccess\<close>

text \<open>The loop over one cluster's verbs (lines 160 to 168).\<close>

fun aclLoop :: "bool gomap \<Rightarrow> string list \<Rightarrow> bool gomap" where
  "aclLoop metricsAccessMap [] = metricsAccessMap"
| "aclLoop metricsAccessMap (acl # rest) =
     aclLoop
       (if HasPrefix acl (verb MetricsACLConfig) then
          AList.update (TrimPrefix acl (verb MetricsACLConfig)) True metricsAccessMap
        else if acl = ''*'' then AList.update ''*'' True metricsAccessMap
        else metricsAccessMap)
       rest"

text \<open>
  The namespaces of one cluster (lines 158 to 173): the keys of \<open>metricsAccessMap\<close>, in
  the order in which the runtime ranges over that map.
\<close>

definition nsWithMetricsAccess :: "map_iteration \<Rightarrow> string \<Rightarrow> string list \<Rightarrow> string list" where
  "nsWithMetricsAccess it clustername clusteracls =
     (let metricsAccessMap = aclLoop [] clusteracls
      in map fst (rangeMetricsAccessMap it clustername metricsAccessMap))"

text \<open>The body of the loop over \<open>resourceACLs\<close> (lines 154 to 181).\<close>

definition clusterBody ::
  "map_iteration \<Rightarrow> string list \<Rightarrow> string list gomap \<Rightarrow> string \<times> string list
     \<Rightarrow> string list gomap" where
  "clusterBody it clusters metricsAccessResults entry =
     (let clustername = fst entry;
          clusteracls = snd entry;
          namespaces = nsWithMetricsAccess it clustername clusteracls
      in if length namespaces > 0 \<or> Contains clusters clustername
         then AList.update clustername namespaces metricsAccessResults
         else metricsAccessResults)"

fun clustersLoop ::
  "map_iteration \<Rightarrow> string list \<Rightarrow> string list gomap \<Rightarrow> (string \<times> string list) list
     \<Rightarrow> string list gomap" where
  "clustersLoop it clusters metricsAccessResults [] = metricsAccessResults"
| "clustersLoop it clusters metricsAccessResults (entry # rest) =
     clustersLoop it clusters (clusterBody it clusters metricsAccessResults entry) rest"

definition GetMetricsAccess ::
  "(rest_config \<Rightarrow> go_error + kube_client) \<Rightarrow> map_iteration \<Rightarrow> AccessReviewer \<Rightarrow> string
     \<Rightarrow> string list \<Rightarrow> go_error + string list gomap" where
  "GetMetricsAccess newForConfig it r userToken clusters =
     (case getKubeClientForUser newForConfig r userToken of
        Inl err \<Rightarrow> Inl err
      | Inr userKClient \<Rightarrow>
          (case GetResourceAccess userKClient (groupRes MetricsACLConfig) clusters [] of
             Inl err \<Rightarrow> Inl err
           | Inr resourceACLs \<Rightarrow>
               Inr (clustersLoop it clusters [] (rangeResourceACLs it resourceACLs))))"

section \<open>Example rules, clients and iteration orders\<close>

text \<open>
  The red rule and the list rule are the cluster roles \<open>view-red-metrics\<close> and
  \<open>listcusters\<close> of rbac_suite_test.go; the review rule stands for the rule every user
  has. A client answers every namespace with its rules.
\<close>

definition managedClusters :: GroupResource where
  "managedClusters = \<lparr>Group = ''cluster.open-cluster-management.io'', Resource = ''managedclusters''\<rparr>"

definition redRule :: ResourceRule where
  "redRule = \<lparr>Verbs = [''metrics/nsred1'', ''metrics/nsred2''],
               APIGroups = [''cluster.open-cluster-management.io''],
               Resources = [''managedclusters''],
               ResourceNames = [''devcluster1'', ''devcluster2'']\<rparr>"

definition listRule :: ResourceRule where
  "listRule = \<lparr>Verbs = [''list''],
                APIGroups = [''cluster.open-cluster-management.io''],
                Resources = [''managedclusters''],
                ResourceNames = []\<rparr>"

definition getRule :: ResourceRule where
  "getRule = \<lparr>Verbs = [''get''],
               APIGroups = [''cluster.open-cluster-management.io''],
               Resources = [''managedclusters''],
               ResourceNames = []\<rparr>"

definition reviewRule :: ResourceRule where
  "reviewRule = \<lparr>Verbs = [''create''],
                  APIGroups = [''authorization.k8s.io''],
                  Resources = [''selfsubjectrulesreviews''],
                  ResourceNames = []\<rparr>"

definition redClient :: kube_client where
  "redClient namespace = Inr \<lparr>ResourceRules = [reviewRule, redRule], EvaluationError = []\<rparr>"

definition listerClient :: kube_client where
  "listerClient namespace = Inr \<lparr>ResourceRules = [reviewRule, listRule], EvaluationError = []\<rparr>"

definition getListClient :: kube_client where
  "getListClient namespace = Inr \<lparr>ResourceRules = [getRule, listRule], EvaluationError = []\<rparr>"

definition listGetClient :: kube_client where
  "listGetClient namespace = Inr \<lparr>ResourceRules = [listRule, getRule], EvaluationError = []\<rparr>"

definition partialClient :: kube_client where
  "partialClient namespace =
     Inr \<lparr>ResourceRules = [redRule], EvaluationError = ''webhook authorizer timed out''\<rparr>"

definition noNewForConfig :: "rest_config \<Rightarrow> go_error + kube_client" where
  "noNewForConfig cfg = Inl (ErrorsNew ''no cluster'')"

definition redReviewer :: AccessReviewer where
  "redReviewer = \<lparr>kubeConfig = None, kubeClient = Some redClient\<rparr>"

definition listerReviewer :: AccessReviewer where
  "listerReviewer = \<lparr>kubeConfig = None, kubeClient = Some listerClient\<rparr>"

definition insertionOrder :: map_iteration where
  "insertionOrder = \<lparr>rangeResourceACLs = (\<lambda>m. m), rangeMetricsAccessMap = (\<lambda>c m. m)\<rparr>"

definition reverseOrder :: map_iteration where
  "reverseOrder = \<lparr>rangeResourceACLs = rev, rangeMetricsAccessMap = (\<lambda>c. rev)\<rparr>"

section \<open>Auxiliary facts\<close>

lemma set_addUniqueItems: "set (addUniqueItems xs ys) = set xs \<union> set ys"
  by (induction ys arbitrary: xs) (auto simp: Contains_def)

lemma distinct_addUniqueItems: "distinct xs \<Longrightarrow> distinct (addUniqueItems xs ys)"
  by (induction ys arbitrary: xs) (auto simp: Contains_def)

lemma addUniqueItems_absorb: "set ys \<subseteq> set xs \<Longrightarrow> addUniqueItems xs ys = xs"
  by (induction ys arbitrary: xs) (auto simp: Contains_def)

lemma addUniqueItems_twice: "addUniqueItems (addUniqueItems xs ys) ys = addUniqueItems xs ys"
  by (rule addUniqueItems_absorb) (simp add: set_addUniqueItems)

lemma addUniqueItems_prefix: "prefix xs (addUniqueItems xs ys)"
proof (induction ys arbitrary: xs)
  case Nil
  show ?case by simp
next
  case (Cons y ys)
  show ?case
  proof (cases "Contains xs y")
    case True
    then show ?thesis using Cons.IH [of xs] by simp
  next
    case False
    have "prefix (xs @ [y]) (addUniqueItems (xs @ [y]) ys)" by (rule Cons.IH)
    then have "prefix xs (addUniqueItems (xs @ [y]) ys)" by (rule append_prefixD)
    with False show ?thesis by simp
  qed
qed

lemma set_foldl_addUniqueItems:
  "set (foldl addUniqueItems acc yss) = set acc \<union> (\<Union>ys\<in>set yss. set ys)"
  by (induction yss arbitrary: acc) (auto simp: set_addUniqueItems)

lemma distinct_foldl_addUniqueItems: "distinct acc \<Longrightarrow> distinct (foldl addUniqueItems acc yss)"
  by (induction yss arbitrary: acc) (auto simp: distinct_addUniqueItems)

lemma index_update: "index (AList.update k v m) k' = (if k' = k then v else index m k')"
  by (simp add: index_def update_conv')

lemma map_of_ruleNamesLoop:
  "map_of (ruleNamesLoop W verbs acc ns) k =
     (if k \<in> set ns \<and> (W = [] \<or> k \<in> set W)
      then Some (addUniqueItems (index acc k) verbs) else map_of acc k)"
  by (induction ns arbitrary: acc)
     (auto simp: Contains_def update_conv' index_update addUniqueItems_twice)

lemma map_of_allNamesLoop:
  "map_of (allNamesLoop verbs acc ns) k =
     (if k \<in> set ns then Some (addUniqueItems (index acc k) verbs) else map_of acc k)"
  by (induction ns arbitrary: acc)
     (auto simp: update_conv' index_update addUniqueItems_twice)

lemma map_of_missingLoop:
  "map_of (missingLoop acc ns) k =
     (if k \<in> set ns \<and> map_of acc k = None then Some [] else map_of acc k)"
  by (induction ns arbitrary: acc) (auto simp: update_conv')

lemma map_of_ruleBody:
  "map_of (ruleBody gr W acc rule) k =
     (if k \<in> rule_targets gr W rule
      then Some (addUniqueItems (index acc k) (Verbs rule)) else map_of acc k)"
  by (auto simp: ruleBody_def rule_targets_def rule_matches_def Contains_def Let_def
        map_of_ruleNamesLoop map_of_allNamesLoop update_conv')

lemma index_ruleBody:
  "index (ruleBody gr W acc rule) k =
     (if k \<in> rule_targets gr W rule
      then addUniqueItems (index acc k) (Verbs rule) else index acc k)"
  by (simp add: index_def map_of_ruleBody)

lemma map_of_rulesLoop:
  "map_of (rulesLoop gr W acc rules) k =
     (if \<exists>r\<in>set rules. k \<in> rule_targets gr W r
      then Some (foldl addUniqueItems (index acc k)
                   (map Verbs (filter (\<lambda>r. k \<in> rule_targets gr W r) rules)))
      else map_of acc k)"
proof (induction rules arbitrary: acc)
  case Nil
  show ?case by simp
next
  case (Cons r rules)
  show ?case
  proof (cases "k \<in> rule_targets gr W r")
    case True
    then show ?thesis
      by (simp add: Cons.IH index_ruleBody map_of_ruleBody)
  next
    case False
    then show ?thesis
      by (simp add: Cons.IH index_ruleBody map_of_ruleBody)
  qed
qed

lemma GetResourceAccess_Inr:
  assumes "snd (makeSubjectRulesReviewForUser kclient namespace) = Inr rules"
  shows "\<exists>res. GetResourceAccess kclient gr W namespace = Inr res \<and>
           (\<forall>k. map_of res k =
              (if \<exists>r\<in>set rules. k \<in> rule_targets gr W r then Some (merged_verbs gr W rules k)
               else if k \<in> set W then Some [] else None))"
  using assms
  by (auto simp: GetResourceAccess_def Let_def map_of_missingLoop map_of_rulesLoop index_def merged_verbs_def)

lemma distinct_keys_ruleNamesLoop:
  "distinct (map fst acc) \<Longrightarrow> distinct (map fst (ruleNamesLoop W verbs acc ns))"
  by (induction ns arbitrary: acc) (auto simp: distinct_update)

lemma distinct_keys_allNamesLoop:
  "distinct (map fst acc) \<Longrightarrow> distinct (map fst (allNamesLoop verbs acc ns))"
  by (induction ns arbitrary: acc) (auto simp: distinct_update)

lemma distinct_keys_missingLoop:
  "distinct (map fst acc) \<Longrightarrow> distinct (map fst (missingLoop acc ns))"
  by (induction ns arbitrary: acc) (auto simp: distinct_update)

lemma distinct_keys_ruleBody:
  "distinct (map fst acc) \<Longrightarrow> distinct (map fst (ruleBody gr W acc rule))"
  by (simp add: ruleBody_def Let_def distinct_keys_ruleNamesLoop distinct_keys_allNamesLoop
        distinct_update)

lemma distinct_keys_rulesLoop:
  "distinct (map fst acc) \<Longrightarrow> distinct (map fst (rulesLoop gr W acc rules))"
  by (induction rules arbitrary: acc) (auto simp: distinct_keys_ruleBody)

lemma distinct_keys_GetResourceAccess:
  "GetResourceAccess kclient gr W namespace = Inr res \<Longrightarrow> distinct (map fst res)"
  by (auto simp: GetResourceAccess_def Let_def distinct_keys_missingLoop distinct_keys_rulesLoop
        split: sum.splits if_splits)

lemma keys_aclLoop:
  "fst ` set (aclLoop m verbs) = fst ` set m \<union> decoded_namespaces ''metrics/'' verbs"
proof (induction verbs arbitrary: m)
  case Nil
  show ?case by (simp add: decoded_namespaces_def)
next
  case (Cons v verbs)
  have star: "\<not> prefix ''metrics/'' ''*''" by simp
  show ?case
  proof (cases "prefix ''metrics/'' v")
    case True
    with star have "v \<noteq> ''*''" by auto
    with True show ?thesis
      by (auto simp: Cons.IH MetricsACLConfig_def HasPrefix_def TrimPrefix_def dom_update
            decoded_namespaces_def)
  next
    case False
    then show ?thesis
      by (auto simp: Cons.IH MetricsACLConfig_def HasPrefix_def TrimPrefix_def dom_update
            decoded_namespaces_def)
  qed
qed

lemma distinct_keys_aclLoop:
  "distinct (map fst m) \<Longrightarrow> distinct (map fst (aclLoop m verbs))"
  by (induction verbs arbitrary: m) (auto simp: distinct_update)

lemma mset_map_fst: "mset xs = mset ys \<Longrightarrow> mset (map fst xs) = mset (map fst ys)"
  by (metis mset_map)

lemma set_nsWithMetricsAccess:
  assumes "valid_iteration it"
  shows "set (nsWithMetricsAccess it c verbs) = decoded_namespaces ''metrics/'' verbs"
proof -
  have "mset (rangeMetricsAccessMap it c (aclLoop [] verbs)) = mset (aclLoop [] verbs)"
    using assms by (simp add: valid_iteration_def)
  then have "set (rangeMetricsAccessMap it c (aclLoop [] verbs)) = set (aclLoop [] verbs)"
    by (rule mset_eq_setD)
  then show ?thesis
    using keys_aclLoop [of "[]" verbs] by (simp add: nsWithMetricsAccess_def)
qed

lemma distinct_nsWithMetricsAccess:
  assumes "valid_iteration it"
  shows "distinct (nsWithMetricsAccess it c verbs)"
proof -
  have "mset (rangeMetricsAccessMap it c (aclLoop [] verbs)) = mset (aclLoop [] verbs)"
    using assms by (simp add: valid_iteration_def)
  then have "mset (map fst (rangeMetricsAccessMap it c (aclLoop [] verbs)))
               = mset (map fst (aclLoop [] verbs))"
    by (rule mset_map_fst)
  moreover have "distinct (map fst (aclLoop [] verbs))"
    by (rule distinct_keys_aclLoop) simp
  ultimately have "distinct (map fst (rangeMetricsAccessMap it c (aclLoop [] verbs)))"
    using mset_eq_imp_distinct_iff by blast
  then show ?thesis
    by (simp add: nsWithMetricsAccess_def)
qed

lemma map_of_clusterBody:
  "map_of (clusterBody it clusters acc (c', verbs)) c =
     (if c = c' \<and> (nsWithMetricsAccess it c' verbs \<noteq> [] \<or> c' \<in> set clusters)
      then Some (nsWithMetricsAccess it c' verbs) else map_of acc c)"
  by (auto simp: clusterBody_def Let_def Contains_def update_conv')

lemma map_of_clustersLoop:
  "distinct (map fst es) \<Longrightarrow>
   map_of (clustersLoop it clusters acc es) c =
     (case map_of es c of
        None \<Rightarrow> map_of acc c
      | Some verbs \<Rightarrow>
          if nsWithMetricsAccess it c verbs \<noteq> [] \<or> c \<in> set clusters
          then Some (nsWithMetricsAccess it c verbs) else map_of acc c)"
proof (induction es arbitrary: acc)
  case Nil
  show ?case by simp
next
  case (Cons e es)
  obtain c' verbs where e: "e = (c', verbs)" by (cases e)
  from Cons.prems e have fresh: "map_of es c' = None" and dist: "distinct (map fst es)"
    by (auto simp: map_of_eq_None_iff)
  show ?case
  proof (cases "c = c'")
    case True
    with fresh have "map_of es c = None" by simp
    then have "map_of (clustersLoop it clusters (clusterBody it clusters acc e) es) c
                 = map_of (clusterBody it clusters acc e) c"
      by (simp add: Cons.IH [OF dist])
    with True show ?thesis
      by (simp add: e map_of_clusterBody)
  next
    case False
    then show ?thesis
      by (simp add: e Cons.IH [OF dist] map_of_clusterBody split: option.splits)
  qed
qed

lemma map_of_permuted:
  assumes "mset es' = mset es" and "distinct (map fst es)"
  shows "distinct (map fst es') \<and> map_of es' = map_of es"
proof -
  from assms(1) have "mset (map fst es') = mset (map fst es)" by (rule mset_map_fst)
  with assms(2) have d: "distinct (map fst es')"
    using mset_eq_imp_distinct_iff by blast
  from assms(1) have "set es' = set es" by (rule mset_eq_setD)
  with d assms(2) have "map_of es' = map_of es" by (simp add: map_of_inject_set)
  with d show ?thesis by simp
qed

lemma GetResourceAccess_success:
  assumes "GetResourceAccess kclient gr W namespace = Inr res"
  shows "\<exists>rules. snd (makeSubjectRulesReviewForUser kclient namespace) = Inr rules"
  using assms by (cases "snd (makeSubjectRulesReviewForUser kclient namespace)")
    (simp_all add: GetResourceAccess_def)

lemma GetResourceAccess_map_of:
  assumes "GetResourceAccess kclient gr W namespace = Inr res"
    and "snd (makeSubjectRulesReviewForUser kclient namespace) = Inr rules"
  shows "map_of res k =
           (if \<exists>r\<in>set rules. k \<in> rule_targets gr W r then Some (merged_verbs gr W rules k)
            else if k \<in> set W then Some [] else None)"
  using GetResourceAccess_Inr [OF assms(2), of gr W] assms(1) by auto

lemma GetResourceAccess_dom:
  assumes "GetResourceAccess kclient gr W namespace = Inr res" and "W \<noteq> []"
  shows "dom (map_of res) = set W"
proof -
  from assms(1) obtain rules
    where rules: "snd (makeSubjectRulesReviewForUser kclient namespace) = Inr rules"
    using GetResourceAccess_success by blast
  have sub: "\<And>r. rule_targets gr W r \<subseteq> set W"
    using assms(2) by (auto simp: rule_targets_def)
  show ?thesis
    using sub by (auto simp: dom_def GetResourceAccess_map_of [OF assms(1) rules] split: if_splits)
qed

lemma GetMetricsAccess_Inr:
  assumes "valid_iteration it"
    and "GetMetricsAccess newForConfig it r userToken clusters = Inr res"
  shows "\<exists>kclient acls.
           getKubeClientForUser newForConfig r userToken = Inr kclient \<and>
           GetResourceAccess kclient (groupRes MetricsACLConfig) clusters [] = Inr acls \<and>
           (\<forall>c. map_of res c =
              (case map_of acls c of
                 None \<Rightarrow> None
               | Some verbs \<Rightarrow>
                   if nsWithMetricsAccess it c verbs \<noteq> [] \<or> c \<in> set clusters
                   then Some (nsWithMetricsAccess it c verbs) else None))"
proof -
  from assms(2) obtain kclient acls
    where kc: "getKubeClientForUser newForConfig r userToken = Inr kclient"
      and acls: "GetResourceAccess kclient (groupRes MetricsACLConfig) clusters [] = Inr acls"
      and res: "res = clustersLoop it clusters [] (rangeResourceACLs it acls)"
    by (auto simp: GetMetricsAccess_def split: sum.splits)
  have "mset (rangeResourceACLs it acls) = mset acls"
    using assms(1) by (simp add: valid_iteration_def)
  moreover have "distinct (map fst acls)"
    using acls by (rule distinct_keys_GetResourceAccess)
  ultimately have perm: "distinct (map fst (rangeResourceACLs it acls))"
    "map_of (rangeResourceACLs it acls) = map_of acls"
    using map_of_permuted by blast+
  have "\<forall>c. map_of res c =
              (case map_of acls c of
                 None \<Rightarrow> None
               | Some verbs \<Rightarrow>
                   if nsWithMetricsAccess it c verbs \<noteq> [] \<or> c \<in> set clusters
                   then Some (nsWithMetricsAccess it c verbs) else None)"
    by (simp add: res map_of_clustersLoop [OF perm(1)] perm(2) split: option.splits)
  with kc acls show ?thesis by blast
qed

lemma decoded_namespaces_iff:
  "ns \<in> decoded_namespaces p verbs \<longleftrightarrow>
     (\<exists>v\<in>set verbs. prefix p v \<and> ns = drop (length p) v) \<or> (ns = ''*'' \<and> ''*'' \<in> set verbs)"
  by (auto simp: decoded_namespaces_def)

lemma decoded_namespaces_Nil: "decoded_namespaces p [] = {}"
  by (simp add: decoded_namespaces_def)

lemma set_merged_verbs:
  "set (merged_verbs gr W rules k) = (\<Union>r\<in>{r \<in> set rules. k \<in> rule_targets gr W r}. set (Verbs r))"
  by (auto simp: merged_verbs_def set_foldl_addUniqueItems)

lemma distinct_merged_verbs: "distinct (merged_verbs gr W rules k)"
  by (simp add: merged_verbs_def distinct_foldl_addUniqueItems)

lemma index_None: "map_of m k = None \<Longrightarrow> index m k = []"
  by (simp add: index_def)

lemma index_Some: "map_of m k = Some v \<Longrightarrow> index m k = v"
  by (simp add: index_def)

lemma nsWithMetricsAccess_empty_iff:
  assumes "valid_iteration it"
  shows "nsWithMetricsAccess it c verbs = [] \<longleftrightarrow> decoded_namespaces ''metrics/'' verbs = {}"
proof -
  have "nsWithMetricsAccess it c verbs = [] \<longleftrightarrow> set (nsWithMetricsAccess it c verbs) = {}"
    by simp
  then show ?thesis
    by (simp only: set_nsWithMetricsAccess [OF assms])
qed

lemma verb_MetricsACLConfig: "verb MetricsACLConfig = ''metrics/''"
  by (simp add: MetricsACLConfig_def)

lemma GetMetricsAccess_Inl_iff:
  "GetMetricsAccess newForConfig it r userToken clusters = Inl err \<longleftrightarrow>
     getKubeClientForUser newForConfig r userToken = Inl err \<or>
     (\<exists>kclient. getKubeClientForUser newForConfig r userToken = Inr kclient \<and>
        GetResourceAccess kclient (groupRes MetricsACLConfig) clusters [] = Inl err)"
  by (auto simp: GetMetricsAccess_def split: sum.splits)

lemma index_merged:
  assumes "GetResourceAccess kclient gr W namespace = Inr res"
    and "snd (makeSubjectRulesReviewForUser kclient namespace) = Inr rules"
  shows "index res k = merged_verbs gr W rules k"
proof (cases "\<exists>r\<in>set rules. k \<in> rule_targets gr W r")
  case True
  then show ?thesis
    by (simp add: index_def GetResourceAccess_map_of [OF assms])
next
  case False
  then have "filter (\<lambda>r. k \<in> rule_targets gr W r) rules = []"
    by (simp add: filter_empty_conv)
  with False show ?thesis
    by (simp add: index_def GetResourceAccess_map_of [OF assms] merged_verbs_def)
qed

lemma valid_insertionOrder: "valid_iteration insertionOrder"
  by (simp add: valid_iteration_def insertionOrder_def)

lemma valid_reverseOrder: "valid_iteration reverseOrder"
  by (simp add: valid_iteration_def reverseOrder_def)

lemma rules_redClient:
  "snd (makeSubjectRulesReviewForUser (Some redClient) namespace) = Inr [reviewRule, redRule]"
  by (simp add: makeSubjectRulesReviewForUser_def redClient_def)

lemma rules_listerClient:
  "snd (makeSubjectRulesReviewForUser (Some listerClient) namespace) = Inr [reviewRule, listRule]"
  by (simp add: makeSubjectRulesReviewForUser_def listerClient_def)

lemma rules_getListClient:
  "snd (makeSubjectRulesReviewForUser (Some getListClient) namespace) = Inr [getRule, listRule]"
  by (simp add: makeSubjectRulesReviewForUser_def getListClient_def)

lemma rules_listGetClient:
  "snd (makeSubjectRulesReviewForUser (Some listGetClient) namespace) = Inr [listRule, getRule]"
  by (simp add: makeSubjectRulesReviewForUser_def listGetClient_def)

lemma targets_reviewRule: "rule_targets managedClusters wanted reviewRule = {}"
  by (simp add: rule_targets_def rule_matches_def managedClusters_def reviewRule_def)

lemma targets_redRule:
  "rule_targets managedClusters [''devcluster1'', ''blah''] redRule = {''devcluster1''}"
  by (simp add: rule_targets_def rule_matches_def managedClusters_def redRule_def)

lemma GetResourceAccess_redClient:
  "GetResourceAccess (Some redClient) managedClusters [''devcluster1'', ''blah''] [] =
     Inr [(''devcluster1'', [''metrics/nsred1'', ''metrics/nsred2'']), (''blah'', [])]"
  by (simp add: GetResourceAccess_def rules_redClient ruleBody_def Contains_def index_def
        managedClusters_def reviewRule_def redRule_def)

lemma GetResourceAccess_getListClient:
  "GetResourceAccess (Some getListClient) managedClusters [] [] = Inr [(''*'', [''get'', ''list''])]"
  by (simp add: GetResourceAccess_def rules_getListClient ruleBody_def Contains_def index_def
        managedClusters_def getRule_def listRule_def)

lemma GetResourceAccess_listGetClient:
  "GetResourceAccess (Some listGetClient) managedClusters [] [] = Inr [(''*'', [''list'', ''get''])]"
  by (simp add: GetResourceAccess_def rules_listGetClient ruleBody_def Contains_def index_def
        managedClusters_def getRule_def listRule_def)

lemma groupRes_MetricsACLConfig: "groupRes MetricsACLConfig = managedClusters"
  by (simp add: MetricsACLConfig_def managedClusters_def)

lemma GetResourceAccess_redClient_devcluster1:
  "GetResourceAccess (Some redClient) managedClusters [''devcluster1''] [] =
     Inr [(''devcluster1'', [''metrics/nsred1'', ''metrics/nsred2''])]"
  by (simp add: GetResourceAccess_def rules_redClient ruleBody_def Contains_def index_def
        managedClusters_def reviewRule_def redRule_def)

lemma GetResourceAccess_listerClient_devcluster1:
  "GetResourceAccess (Some listerClient) managedClusters [''devcluster1''] [] =
     Inr [(''devcluster1'', [''list''])]"
  by (simp add: GetResourceAccess_def rules_listerClient ruleBody_def Contains_def index_def
        managedClusters_def reviewRule_def listRule_def)

lemma GetMetricsAccess_red_insertionOrder:
  "GetMetricsAccess noNewForConfig insertionOrder redReviewer [] [''devcluster1''] =
     Inr [(''devcluster1'', [''nsred1'', ''nsred2''])]"
  by (simp add: GetMetricsAccess_def getKubeClientForUser_def redReviewer_def
        groupRes_MetricsACLConfig GetResourceAccess_redClient_devcluster1 clusterBody_def
        nsWithMetricsAccess_def insertionOrder_def verb_MetricsACLConfig HasPrefix_def
        TrimPrefix_def Contains_def)

lemma GetMetricsAccess_red_reverseOrder:
  "GetMetricsAccess noNewForConfig reverseOrder redReviewer [] [''devcluster1''] =
     Inr [(''devcluster1'', [''nsred2'', ''nsred1''])]"
  by (simp add: GetMetricsAccess_def getKubeClientForUser_def redReviewer_def
        groupRes_MetricsACLConfig GetResourceAccess_redClient_devcluster1 clusterBody_def
        nsWithMetricsAccess_def reverseOrder_def verb_MetricsACLConfig HasPrefix_def
        TrimPrefix_def Contains_def)

lemma GetMetricsAccess_lister_insertionOrder:
  "GetMetricsAccess noNewForConfig insertionOrder listerReviewer [] [''devcluster1''] =
     Inr [(''devcluster1'', [])]"
  by (simp add: GetMetricsAccess_def getKubeClientForUser_def listerReviewer_def
        groupRes_MetricsACLConfig GetResourceAccess_listerClient_devcluster1 clusterBody_def
        nsWithMetricsAccess_def insertionOrder_def verb_MetricsACLConfig HasPrefix_def
        TrimPrefix_def Contains_def)

section \<open>The claims\<close>

text \<open>
  Claim C1. The body of the loop over the rules merges a rule's verbs into exactly the
  entries named by \<open>rule_targets\<close>: none when the rule does not match the target; its
  own names that are requested (all of its names when none are requested) when it has
  names; every requested name when it has none and names are requested; the entry \<open>"*"\<close>
  otherwise. Hence, when the rule-listing call succeeds, \<open>GetResourceAccess\<close> succeeds and
  the value of every entry is the merge, in rule order, of the verbs of exactly the rules
  that contribute to it; other requested names get the empty sequence, other names no
  entry.
\<close>

theorem GetResourceAccess_merges_matching_rules:
  assumes "snd (makeSubjectRulesReviewForUser kclient namespace) = Inr rules"
  shows "(\<forall>results rule name.
            map_of (ruleBody target wanted results rule) name =
              (if name \<in> rule_targets target wanted rule
               then Some (addUniqueItems (index results name) (Verbs rule))
               else map_of results name)) \<and>
         (\<exists>res. GetResourceAccess kclient target wanted namespace = Inr res \<and>
            (\<forall>name. map_of res name =
               (if \<exists>rule\<in>set rules. name \<in> rule_targets target wanted rule
                then Some (merged_verbs target wanted rules name)
                else if name \<in> set wanted then Some [] else None)) \<and>
            (\<forall>name. set (index res name) =
               (\<Union>rule\<in>{rule \<in> set rules. name \<in> rule_targets target wanted rule}.
                  set (Verbs rule))))"
proof -
  from GetResourceAccess_Inr [OF assms, of target wanted] obtain res
    where res: "GetResourceAccess kclient target wanted namespace = Inr res"
      and m: "\<And>name. map_of res name =
               (if \<exists>rule\<in>set rules. name \<in> rule_targets target wanted rule
                then Some (merged_verbs target wanted rules name)
                else if name \<in> set wanted then Some [] else None)"
    by blast
  have "set (index res name) =
          (\<Union>rule\<in>{rule \<in> set rules. name \<in> rule_targets target wanted rule}. set (Verbs rule))"
    for name
    by (auto simp: index_def m set_merged_verbs)
  with res m show ?thesis
    by (simp add: map_of_ruleBody)
qed

text \<open>
  The red administrator of the test suite asks for \<open>devcluster1\<close> and \<open>blah\<close>: the red
  rule names \<open>devcluster1\<close> and \<open>devcluster2\<close>, the review rule does not match.
\<close>

theorem GetResourceAccess_merges_matching_rules_witness:
  "snd (makeSubjectRulesReviewForUser (Some redClient) []) = Inr [reviewRule, redRule] \<and>
   (\<exists>res. GetResourceAccess (Some redClient) managedClusters [''devcluster1'', ''blah''] []
             = Inr res \<and>
      map_of res ''devcluster1'' = Some [''metrics/nsred1'', ''metrics/nsred2''] \<and>
      map_of res ''blah'' = Some [] \<and>
      map_of res ''devcluster2'' = None)"
proof -
  have rules: "snd (makeSubjectRulesReviewForUser (Some redClient) []) = Inr [reviewRule, redRule]"
    by (rule rules_redClient)
  have merged: "merged_verbs managedClusters [''devcluster1'', ''blah''] [reviewRule, redRule]
                  ''devcluster1'' = [''metrics/nsred1'', ''metrics/nsred2'']"
    unfolding merged_verbs_def
    by (simp add: targets_reviewRule targets_redRule, simp add: redRule_def Contains_def)
  from GetResourceAccess_merges_matching_rules
         [OF rules, where target = managedClusters and wanted = "[''devcluster1'', ''blah'']"]
  have "\<exists>res. GetResourceAccess (Some redClient) managedClusters [''devcluster1'', ''blah''] []
                = Inr res \<and>
          map_of res ''devcluster1'' = Some [''metrics/nsred1'', ''metrics/nsred2''] \<and>
          map_of res ''blah'' = Some [] \<and>
          map_of res ''devcluster2'' = None"
    by (elim conjE exE) (simp add: targets_reviewRule targets_redRule merged)
  with rules show ?thesis by (rule conjI)
qed

text \<open>
  Claim C2. When the rule-listing call succeeds, \<open>GetResourceAccess\<close> succeeds and its
  map has an entry for every requested name; a requested name to which no rule
  contributes (in particular when no rule matches the target) is mapped to the empty
  sequence.
\<close>

theorem GetResourceAccess_requested_names_present:
  assumes "snd (makeSubjectRulesReviewForUser kclient namespace) = Inr rules"
    and "name \<in> set resourcenames"
  shows "\<exists>res. GetResourceAccess kclient gr resourcenames namespace = Inr res \<and>
           map_of res name \<noteq> None \<and>
           ((\<forall>rule\<in>set rules. name \<notin> rule_targets gr resourcenames rule)
              \<longrightarrow> map_of res name = Some [])"
  using GetResourceAccess_Inr [OF assms(1), of gr resourcenames] assms(2) by auto

text \<open>The cluster \<open>blah\<close>, for which the red administrator has no rule.\<close>

theorem GetResourceAccess_requested_names_present_witness:
  "snd (makeSubjectRulesReviewForUser (Some redClient) []) = Inr [reviewRule, redRule] \<and>
   ''blah'' \<in> set [''devcluster1'', ''blah''] \<and>
   (\<exists>res. GetResourceAccess (Some redClient) managedClusters [''devcluster1'', ''blah''] []
             = Inr res \<and>
      map_of res ''blah'' = Some [])"
proof -
  have rules: "snd (makeSubjectRulesReviewForUser (Some redClient) []) = Inr [reviewRule, redRule]"
    by (rule rules_redClient)
  have requested: "''blah'' \<in> set [''devcluster1'', ''blah'']" by simp
  from GetResourceAccess_requested_names_present
         [OF rules requested, where gr = managedClusters]
  have "\<exists>res. GetResourceAccess (Some redClient) managedClusters [''devcluster1'', ''blah''] []
                = Inr res \<and>
          map_of res ''blah'' = Some []"
    by (elim exE conjE) (simp add: targets_reviewRule targets_redRule)
  with rules requested show ?thesis by (intro conjI)
qed

text \<open>
  Claim C3. In the map of a successful \<open>GetMetricsAccess\<close> a cluster has an entry iff
  the namespaces decoded from its verbs in the resource-access map are not empty or the
  cluster was requested; a requested cluster without decoded namespaces is mapped to the
  empty sequence.
\<close>

theorem GetMetricsAccess_entry_iff:
  assumes "valid_iteration it"
    and "GetMetricsAccess newForConfig it r userToken clusters = Inr res"
  shows "\<exists>kclient acls.
           getKubeClientForUser newForConfig r userToken = Inr kclient \<and>
           GetResourceAccess kclient (groupRes MetricsACLConfig) clusters [] = Inr acls \<and>
           (\<forall>c. map_of res c \<noteq> None \<longleftrightarrow>
                  decoded_namespaces (verb MetricsACLConfig) (index acls c) \<noteq> {} \<or>
                  c \<in> set clusters) \<and>
           (\<forall>c. c \<in> set clusters \<and>
                  decoded_namespaces (verb MetricsACLConfig) (index acls c) = {}
                  \<longrightarrow> map_of res c = Some [])"
proof -
  from GetMetricsAccess_Inr [OF assms] obtain kclient acls
    where kc: "getKubeClientForUser newForConfig r userToken = Inr kclient"
      and acls: "GetResourceAccess kclient (groupRes MetricsACLConfig) clusters [] = Inr acls"
      and m: "\<And>c. map_of res c =
                (case map_of acls c of
                   None \<Rightarrow> None
                 | Some verbs \<Rightarrow>
                     if nsWithMetricsAccess it c verbs \<noteq> [] \<or> c \<in> set clusters
                     then Some (nsWithMetricsAccess it c verbs) else None)"
    by blast
  have requested: "map_of acls c \<noteq> None" if "c \<in> set clusters" for c
  proof -
    from that have "clusters \<noteq> []" by auto
    with acls have "dom (map_of acls) = set clusters" by (rule GetResourceAccess_dom)
    with that show ?thesis by (auto simp: dom_def)
  qed
  have present: "map_of res c \<noteq> None \<longleftrightarrow>
                   decoded_namespaces ''metrics/'' (index acls c) \<noteq> {} \<or> c \<in> set clusters"
    for c
  proof (cases "map_of acls c")
    case None
    with requested [of c] show ?thesis
      by (auto simp: m index_None decoded_namespaces_Nil)
  next
    case (Some verbs)
    then show ?thesis
      by (simp add: m index_Some nsWithMetricsAccess_empty_iff [OF assms(1)])
  qed
  have empty: "map_of res c = Some []"
    if "c \<in> set clusters" and "decoded_namespaces ''metrics/'' (index acls c) = {}" for c
  proof -
    from requested [OF that(1)] obtain verbs where v: "map_of acls c = Some verbs" by auto
    with that(2) have "nsWithMetricsAccess it c verbs = []"
      by (simp add: index_Some nsWithMetricsAccess_empty_iff [OF assms(1)])
    with v that(1) show ?thesis by (simp add: m)
  qed
  show ?thesis
    unfolding verb_MetricsACLConfig
  proof (intro exI conjI allI impI)
    show "getKubeClientForUser newForConfig r userToken = Inr kclient" by (rule kc)
    show "GetResourceAccess kclient (groupRes MetricsACLConfig) clusters [] = Inr acls"
      by (rule acls)
    show "map_of res c \<noteq> None \<longleftrightarrow>
            decoded_namespaces ''metrics/'' (index acls c) \<noteq> {} \<or> c \<in> set clusters" for c
      by (rule present)
    show "map_of res c = Some []"
      if "c \<in> set clusters \<and> decoded_namespaces ''metrics/'' (index acls c) = {}" for c
      using that empty by simp
  qed
qed

text \<open>
  The cluster lister of the test suite, who holds the verb \<open>list\<close> only, asks for
  \<open>devcluster1\<close>.
\<close>

theorem GetMetricsAccess_entry_iff_witness:
  "valid_iteration insertionOrder \<and>
   GetMetricsAccess noNewForConfig insertionOrder listerReviewer [] [''devcluster1'']
     = Inr [(''devcluster1'', [])] \<and>
   (\<exists>acls. GetResourceAccess (Some listerClient) (groupRes MetricsACLConfig) [''devcluster1''] []
              = Inr acls \<and>
      decoded_namespaces (verb MetricsACLConfig) (index acls ''devcluster1'') = {} \<and>
      map_of [(''devcluster1'', [])] ''devcluster1'' = Some [])"
proof -
  note ok = GetMetricsAccess_lister_insertionOrder
  have kc: "getKubeClientForUser noNewForConfig listerReviewer [] = Inr (Some listerClient)"
    by (simp add: getKubeClientForUser_def listerReviewer_def)
  have d: "decoded_namespaces ''metrics/'' (index [(''devcluster1'', [''list''])] ''devcluster1'')
             = {}"
    by (simp add: decoded_namespaces_def index_def)
  from GetMetricsAccess_entry_iff [OF valid_insertionOrder ok]
  have "\<exists>acls. GetResourceAccess (Some listerClient) (groupRes MetricsACLConfig)
                  [''devcluster1''] [] = Inr acls \<and>
          decoded_namespaces (verb MetricsACLConfig) (index acls ''devcluster1'') = {} \<and>
          map_of [(''devcluster1'', [])] ''devcluster1'' = Some []"
    by (simp add: kc groupRes_MetricsACLConfig GetResourceAccess_listerClient_devcluster1
          verb_MetricsACLConfig d)
  with valid_insertionOrder ok show ?thesis by (intro conjI)
qed

text \<open>
  Claim C4. For every cluster and verb list, the namespaces computed in
  \<open>GetMetricsAccess\<close> are exactly the suffixes after \<open>"metrics/"\<close> of the verbs that start
  with it, and \<open>"*"\<close> when the verb \<open>"*"\<close> is in the list; no other verb contributes.
  Every entry of the returned map is computed in this way from the cluster's verbs in the
  resource-access map.
\<close>

theorem GetMetricsAccess_decoding:
  assumes "valid_iteration it"
  shows "(\<forall>clustername verbs ns.
            ns \<in> set (nsWithMetricsAccess it clustername verbs) \<longleftrightarrow>
              (\<exists>v\<in>set verbs. prefix ''metrics/'' v \<and> ns = drop (length ''metrics/'') v) \<or>
              (ns = ''*'' \<and> ''*'' \<in> set verbs)) \<and>
         (\<forall>clustername verbs. distinct (nsWithMetricsAccess it clustername verbs)) \<and>
         (\<forall>res clustername namespaces.
            GetMetricsAccess newForConfig it r userToken clusters = Inr res \<and>
            map_of res clustername = Some namespaces \<longrightarrow>
            (\<exists>kclient acls.
               getKubeClientForUser newForConfig r userToken = Inr kclient \<and>
               GetResourceAccess kclient (groupRes MetricsACLConfig) clusters [] = Inr acls \<and>
               namespaces = nsWithMetricsAccess it clustername (index acls clustername)))"
proof -
  have decode: "ns \<in> set (nsWithMetricsAccess it clustername verbs) \<longleftrightarrow>
              (\<exists>v\<in>set verbs. prefix ''metrics/'' v \<and> ns = drop (length ''metrics/'') v) \<or>
              (ns = ''*'' \<and> ''*'' \<in> set verbs)" for clustername verbs ns
    unfolding set_nsWithMetricsAccess [OF assms] by (rule decoded_namespaces_iff)
  have entry: "\<exists>kclient acls.
               getKubeClientForUser newForConfig r userToken = Inr kclient \<and>
               GetResourceAccess kclient (groupRes MetricsACLConfig) clusters [] = Inr acls \<and>
               namespaces = nsWithMetricsAccess it clustername (index acls clustername)"
    if "GetMetricsAccess newForConfig it r userToken clusters = Inr res"
      and "map_of res clustername = Some namespaces" for res clustername namespaces
  proof -
    from GetMetricsAccess_Inr [OF assms that(1)] obtain kclient acls
      where kc: "getKubeClientForUser newForConfig r userToken = Inr kclient"
        and acls: "GetResourceAccess kclient (groupRes MetricsACLConfig) clusters [] = Inr acls"
        and m: "\<And>c. map_of res c =
                  (case map_of acls c of
                     None \<Rightarrow> None
                   | Some verbs \<Rightarrow>
                       if nsWithMetricsAccess it c verbs \<noteq> [] \<or> c \<in> set clusters
                       then Some (nsWithMetricsAccess it c verbs) else None)"
      by blast
    from that(2) have "namespaces = nsWithMetricsAccess it clustername (index acls clustername)"
      by (auto simp: m index_def split: option.splits if_splits)
    with kc acls show ?thesis by blast
  qed
  show ?thesis
  proof (intro conjI allI impI)
    show "ns \<in> set (nsWithMetricsAccess it clustername verbs) \<longleftrightarrow>
              (\<exists>v\<in>set verbs. prefix ''metrics/'' v \<and> ns = drop (length ''metrics/'') v) \<or>
              (ns = ''*'' \<and> ''*'' \<in> set verbs)" for clustername verbs ns
      by (rule decode)
    show "distinct (nsWithMetricsAccess it clustername verbs)" for clustername verbs
      by (rule distinct_nsWithMetricsAccess [OF assms])
    show "\<exists>kclient acls.
               getKubeClientForUser newForConfig r userToken = Inr kclient \<and>
               GetResourceAccess kclient (groupRes MetricsACLConfig) clusters [] = Inr acls \<and>
               namespaces = nsWithMetricsAccess it clustername (index acls clustername)"
      if "GetMetricsAccess newForConfig it r userToken clusters = Inr res \<and>
            map_of res clustername = Some namespaces" for res clustername namespaces
      using that entry by simp
  qed
qed

text \<open>
  The verbs \<open>metrics/ns1\<close>, \<open>list\<close> and \<open>*\<close>, and the entry of \<open>devcluster1\<close> in the
  red administrator's result.
\<close>

theorem GetMetricsAccess_decoding_witness:
  "valid_iteration reverseOrder \<and>
   ''ns1'' \<in> set (nsWithMetricsAccess reverseOrder ''devcluster1'' [''metrics/ns1'', ''list'', ''*'']) \<and>
   ''*'' \<in> set (nsWithMetricsAccess reverseOrder ''devcluster1'' [''metrics/ns1'', ''list'', ''*'']) \<and>
   ''list'' \<notin> set (nsWithMetricsAccess reverseOrder ''devcluster1'' [''metrics/ns1'', ''list'', ''*'']) \<and>
   distinct (nsWithMetricsAccess reverseOrder ''devcluster1'' [''metrics/ns1'', ''list'', ''*'']) \<and>
   GetMetricsAccess noNewForConfig reverseOrder redReviewer [] [''devcluster1''] =
     Inr [(''devcluster1'', [''nsred2'', ''nsred1''])] \<and>
   map_of [(''devcluster1'', [''nsred2'', ''nsred1''])] ''devcluster1'' = Some [''nsred2'', ''nsred1''] \<and>
   (\<exists>acls. GetResourceAccess (Some redClient) (groupRes MetricsACLConfig) [''devcluster1''] []
              = Inr acls \<and>
      [''nsred2'', ''nsred1''] =
        nsWithMetricsAccess reverseOrder ''devcluster1'' (index acls ''devcluster1''))"
proof -
  note decoding = GetMetricsAccess_decoding
    [OF valid_reverseOrder, where newForConfig = noNewForConfig and r = redReviewer
       and userToken = "[]" and clusters = "[''devcluster1'']"]
  note verbs = decoding [THEN conjunct1, rule_format]
  note nodup = decoding [THEN conjunct2, THEN conjunct1, rule_format]
  note entries = decoding [THEN conjunct2, THEN conjunct2, rule_format]
  have kc: "getKubeClientForUser noNewForConfig redReviewer [] = Inr (Some redClient)"
    by (simp add: getKubeClientForUser_def redReviewer_def)
  have entry: "map_of [(''devcluster1'', [''nsred2'', ''nsred1''])] ''devcluster1''
                 = Some [''nsred2'', ''nsred1'']"
    by simp
  from entries [OF conjI [OF GetMetricsAccess_red_reverseOrder entry]]
  have acls: "\<exists>acls.
      GetResourceAccess (Some redClient) (groupRes MetricsACLConfig) [''devcluster1''] [] = Inr acls \<and>
      [''nsred2'', ''nsred1''] =
        nsWithMetricsAccess reverseOrder ''devcluster1'' (index acls ''devcluster1'')"
    by (simp add: kc)
  have ns1: "''ns1'' \<in> set (nsWithMetricsAccess reverseOrder ''devcluster1''
                              [''metrics/ns1'', ''list'', ''*''])"
    by (simp add: verbs)
  have star: "''*'' \<in> set (nsWithMetricsAccess reverseOrder ''devcluster1''
                              [''metrics/ns1'', ''list'', ''*''])"
    by (simp add: verbs)
  have list: "''list'' \<notin> set (nsWithMetricsAccess reverseOrder ''devcluster1''
                                 [''metrics/ns1'', ''list'', ''*''])"
    by (simp add: verbs)
  from valid_reverseOrder ns1 star list nodup GetMetricsAccess_red_reverseOrder entry acls
  show ?thesis by (intro conjI)
qed

text \<open>
  Claim C5. As a set, \<open>addUniqueItems\<close> is the union of the list and the added items;
  merging the same items again changes nothing; the order of two merges does not change
  the set; no list built from the empty list by merges, in particular no value of the
  resource-access map, has a duplicate. Merging \<open>A, B\<close> and then \<open>B, C\<close> gives
  \<open>A, B, C\<close>; the other order gives the same three items.
\<close>

theorem addUniqueItems_set_union:
  "set (addUniqueItems itemlist itemsToAdd) = set itemlist \<union> set itemsToAdd \<and>
   addUniqueItems (addUniqueItems itemlist itemsToAdd) itemsToAdd
     = addUniqueItems itemlist itemsToAdd \<and>
   set (addUniqueItems (addUniqueItems itemlist xs) ys)
     = set (addUniqueItems (addUniqueItems itemlist ys) xs) \<and>
   distinct (foldl addUniqueItems [] verbLists) \<and>
   distinct (merged_verbs target wanted rules name) \<and>
   addUniqueItems (addUniqueItems [] [''A'', ''B'']) [''B'', ''C''] = [''A'', ''B'', ''C''] \<and>
   addUniqueItems (addUniqueItems [] [''B'', ''C'']) [''A'', ''B''] = [''B'', ''C'', ''A''] \<and>
   addUniqueItems (addUniqueItems [] [''A'']) [''A''] = [''A'']"
  by (simp add: set_addUniqueItems addUniqueItems_twice distinct_foldl_addUniqueItems
        distinct_merged_verbs Un_ac Contains_def)

text \<open>
  Claim C6, amended. Permuting the rules changes neither the keys of the map returned by
  \<open>GetResourceAccess\<close> nor the verbs of any entry as a collection: the two sequences of
  an entry are permutations of each other. (Their order follows the order of the rules.)
\<close>

theorem GetResourceAccess_rule_order:
  assumes "snd (makeSubjectRulesReviewForUser kclient namespace) = Inr rules"
    and "snd (makeSubjectRulesReviewForUser kclient' namespace') = Inr rules'"
    and "mset rules' = mset rules"
  shows "\<exists>res res'.
           GetResourceAccess kclient gr resourcenames namespace = Inr res \<and>
           GetResourceAccess kclient' gr resourcenames namespace' = Inr res' \<and>
           (\<forall>name. (map_of res' name = None \<longleftrightarrow> map_of res name = None) \<and>
                   mset (index res' name) = mset (index res name))"
proof -
  from GetResourceAccess_Inr [OF assms(1), of gr resourcenames] obtain res
    where res: "GetResourceAccess kclient gr resourcenames namespace = Inr res" by blast
  from GetResourceAccess_Inr [OF assms(2), of gr resourcenames] obtain res'
    where res': "GetResourceAccess kclient' gr resourcenames namespace' = Inr res'" by blast
  from assms(3) have same: "set rules' = set rules" by (rule mset_eq_setD)
  have "(map_of res' name = None \<longleftrightarrow> map_of res name = None) \<and>
        mset (index res' name) = mset (index res name)" for name
  proof
    show "map_of res' name = None \<longleftrightarrow> map_of res name = None"
      by (simp add: GetResourceAccess_map_of [OF res assms(1)]
            GetResourceAccess_map_of [OF res' assms(2)] same)
    have "set (index res' name) = set (index res name)"
      by (simp only: index_merged [OF res assms(1)] index_merged [OF res' assms(2)]
            set_merged_verbs same)
    moreover have "distinct (index res' name)" "distinct (index res name)"
      by (simp_all only: index_merged [OF res assms(1)] index_merged [OF res' assms(2)]
            distinct_merged_verbs)
    ultimately show "mset (index res' name) = mset (index res name)"
      by (simp add: set_eq_iff_mset_eq_distinct)
  qed
  with res res' show ?thesis by blast
qed

text \<open>A rule granting \<open>get\<close> and a rule granting \<open>list\<close>, in both orders.\<close>

theorem GetResourceAccess_rule_order_witness:
  "snd (makeSubjectRulesReviewForUser (Some getListClient) []) = Inr [getRule, listRule] \<and>
   snd (makeSubjectRulesReviewForUser (Some listGetClient) []) = Inr [listRule, getRule] \<and>
   mset [listRule, getRule] = mset [getRule, listRule] \<and>
   (map_of [(''*'', [''list'', ''get''])] ''*'' = None \<longleftrightarrow>
      map_of [(''*'', [''get'', ''list''])] ''*'' = None) \<and>
   mset (index [(''*'', [''list'', ''get''])] ''*'') = mset (index [(''*'', [''get'', ''list''])] ''*'')"
proof -
  have p: "mset [listRule, getRule] = mset [getRule, listRule]"
    by (simp add: add_mset_commute)
  from GetResourceAccess_rule_order
         [OF rules_getListClient rules_listGetClient p,
          where namespace = "[]" and namespace' = "[]" and gr = managedClusters
            and resourcenames = "[]"]
  have "mset (index [(''*'', [''list'', ''get''])] ''*'')
          = mset (index [(''*'', [''get'', ''list''])] ''*'')"
    by (simp add: GetResourceAccess_getListClient GetResourceAccess_listGetClient)
  with p show ?thesis
    by (simp add: rules_getListClient rules_listGetClient)
qed

text \<open>
  Claim C6 as stated fails: with the same two rules in the other order, the entry \<open>"*"\<close>
  of the returned map is \<open>list, get\<close> instead of \<open>get, list\<close>.
\<close>

theorem GetResourceAccess_rule_order_counterexample:
  "snd (makeSubjectRulesReviewForUser (Some getListClient) []) = Inr [getRule, listRule] \<and>
   snd (makeSubjectRulesReviewForUser (Some listGetClient) []) = Inr [listRule, getRule] \<and>
   mset [listRule, getRule] = mset [getRule, listRule] \<and>
   GetResourceAccess (Some getListClient) managedClusters [] [] = Inr [(''*'', [''get'', ''list''])] \<and>
   GetResourceAccess (Some listGetClient) managedClusters [] [] = Inr [(''*'', [''list'', ''get''])] \<and>
   map_of [(''*'', [''get'', ''list''])] ''*'' \<noteq> map_of [(''*'', [''list'', ''get''])] ''*''"
  by (simp add: rules_getListClient rules_listGetClient GetResourceAccess_getListClient
        GetResourceAccess_listGetClient add_mset_commute)

text \<open>
  Claim C7, amended. For the same input, two evaluations of \<open>GetMetricsAccess\<close>, whatever
  order the runtime ranges over the maps in, fail with the same error or return maps with
  the same keys whose values are duplicate-free and hold the same namespaces. (The order
  of the namespaces in a value is the order of the \<open>range\<close> over \<open>metricsAccessMap\<close>.)
\<close>

theorem GetMetricsAccess_same_namespace_sets:
  assumes "valid_iteration it" and "valid_iteration it'"
  shows "(\<forall>err. GetMetricsAccess newForConfig it r userToken clusters = Inl err \<longleftrightarrow>
                 GetMetricsAccess newForConfig it' r userToken clusters = Inl err) \<and>
         (\<forall>res res'.
            GetMetricsAccess newForConfig it r userToken clusters = Inr res \<and>
            GetMetricsAccess newForConfig it' r userToken clusters = Inr res' \<longrightarrow>
            (\<forall>c. (map_of res c = None \<longleftrightarrow> map_of res' c = None) \<and>
                  mset (index res c) = mset (index res' c) \<and>
                  distinct (index res c)))"
proof (rule conjI)
  show "\<forall>err. GetMetricsAccess newForConfig it r userToken clusters = Inl err \<longleftrightarrow>
              GetMetricsAccess newForConfig it' r userToken clusters = Inl err"
    by (simp add: GetMetricsAccess_Inl_iff)
next
  show "\<forall>res res'.
            GetMetricsAccess newForConfig it r userToken clusters = Inr res \<and>
            GetMetricsAccess newForConfig it' r userToken clusters = Inr res' \<longrightarrow>
            (\<forall>c. (map_of res c = None \<longleftrightarrow> map_of res' c = None) \<and>
                  mset (index res c) = mset (index res' c) \<and>
                  distinct (index res c))"
  proof (intro allI impI)
  fix res res' c
  assume both: "GetMetricsAccess newForConfig it r userToken clusters = Inr res \<and>
                GetMetricsAccess newForConfig it' r userToken clusters = Inr res'"
  from GetMetricsAccess_Inr [OF assms(1)] both obtain kclient acls
    where kc: "getKubeClientForUser newForConfig r userToken = Inr kclient"
      and acls: "GetResourceAccess kclient (groupRes MetricsACLConfig) clusters [] = Inr acls"
      and m: "\<And>c. map_of res c =
                (case map_of acls c of
                   None \<Rightarrow> None
                 | Some verbs \<Rightarrow>
                     if nsWithMetricsAccess it c verbs \<noteq> [] \<or> c \<in> set clusters
                     then Some (nsWithMetricsAccess it c verbs) else None)"
    by blast
  from GetMetricsAccess_Inr [OF assms(2)] both obtain kclient' acls'
    where kc': "getKubeClientForUser newForConfig r userToken = Inr kclient'"
      and acls': "GetResourceAccess kclient' (groupRes MetricsACLConfig) clusters [] = Inr acls'"
      and m': "\<And>c. map_of res' c =
                (case map_of acls' c of
                   None \<Rightarrow> None
                 | Some verbs \<Rightarrow>
                     if nsWithMetricsAccess it' c verbs \<noteq> [] \<or> c \<in> set clusters
                     then Some (nsWithMetricsAccess it' c verbs) else None)"
    by blast
  from kc kc' have "kclient' = kclient" by simp
  with acls acls' have eq: "acls' = acls" by simp
  show "(map_of res c = None \<longleftrightarrow> map_of res' c = None) \<and>
        mset (index res c) = mset (index res' c) \<and> distinct (index res c)"
  proof (cases "map_of acls c")
    case None
    then show ?thesis by (simp add: m m' eq index_def)
  next
    case (Some verbs)
    have e: "nsWithMetricsAccess it c verbs = [] \<longleftrightarrow> nsWithMetricsAccess it' c verbs = []"
      by (simp only: nsWithMetricsAccess_empty_iff [OF assms(1)]
            nsWithMetricsAccess_empty_iff [OF assms(2)])
    have "set (nsWithMetricsAccess it c verbs) = set (nsWithMetricsAccess it' c verbs)"
      by (simp only: set_nsWithMetricsAccess [OF assms(1)] set_nsWithMetricsAccess [OF assms(2)])
    then have p: "mset (nsWithMetricsAccess it c verbs) = mset (nsWithMetricsAccess it' c verbs)"
      by (simp add: set_eq_iff_mset_eq_distinct [symmetric]
            distinct_nsWithMetricsAccess [OF assms(1)] distinct_nsWithMetricsAccess [OF assms(2)])
    from Some e p distinct_nsWithMetricsAccess [OF assms(1), of c verbs] show ?thesis
      by (simp add: m m' eq index_def)
  qed
  qed
qed

text \<open>The red administrator asks for \<open>devcluster1\<close>, under two iteration orders.\<close>

theorem GetMetricsAccess_same_namespace_sets_witness:
  "valid_iteration insertionOrder \<and> valid_iteration reverseOrder \<and>
   GetMetricsAccess noNewForConfig insertionOrder redReviewer [] [''devcluster1''] =
     Inr [(''devcluster1'', [''nsred1'', ''nsred2''])] \<and>
   GetMetricsAccess noNewForConfig reverseOrder redReviewer [] [''devcluster1''] =
     Inr [(''devcluster1'', [''nsred2'', ''nsred1''])] \<and>
   mset (index [(''devcluster1'', [''nsred1'', ''nsred2''])] ''devcluster1'') =
     mset (index [(''devcluster1'', [''nsred2'', ''nsred1''])] ''devcluster1'') \<and>
   distinct (index [(''devcluster1'', [''nsred1'', ''nsred2''])] ''devcluster1'')"
proof -
  from GetMetricsAccess_same_namespace_sets
         [OF valid_insertionOrder valid_reverseOrder,
          where newForConfig = noNewForConfig and r = redReviewer and userToken = "[]"
            and clusters = "[''devcluster1'']"]
  have "mset (index [(''devcluster1'', [''nsred1'', ''nsred2''])] ''devcluster1'') =
          mset (index [(''devcluster1'', [''nsred2'', ''nsred1''])] ''devcluster1'') \<and>
        distinct (index [(''devcluster1'', [''nsred1'', ''nsred2''])] ''devcluster1'')"
    by (simp add: GetMetricsAccess_red_insertionOrder GetMetricsAccess_red_reverseOrder)
  then show ?thesis
    by (simp add: valid_insertionOrder valid_reverseOrder GetMetricsAccess_red_insertionOrder
          GetMetricsAccess_red_reverseOrder)
qed

text \<open>
  Claim C7 as stated fails: both iteration orders are permitted by the language, and
  the namespaces of \<open>devcluster1\<close> come out as \<open>nsred1, nsred2\<close> under one and as
  \<open>nsred2, nsred1\<close> under the other.
\<close>

theorem GetMetricsAccess_order_counterexample:
  "valid_iteration insertionOrder \<and> valid_iteration reverseOrder \<and>
   GetMetricsAccess noNewForConfig insertionOrder redReviewer [] [''devcluster1''] =
     Inr [(''devcluster1'', [''nsred1'', ''nsred2''])] \<and>
   GetMetricsAccess noNewForConfig reverseOrder redReviewer [] [''devcluster1''] =
     Inr [(''devcluster1'', [''nsred2'', ''nsred1''])] \<and>
   map_of [(''devcluster1'', [''nsred1'', ''nsred2''])] ''devcluster1'' \<noteq>
     map_of [(''devcluster1'', [''nsred2'', ''nsred1''])] ''devcluster1''"
  by (simp add: valid_insertionOrder valid_reverseOrder GetMetricsAccess_red_insertionOrder
        GetMetricsAccess_red_reverseOrder)

text \<open>
  Claim C8. \<open>NewAccessReviewer\<close> returns an error when both arguments are nil and when
  both are set, and an \<open>AccessReviewer\<close> when exactly one of them is set.
\<close>

theorem NewAccessReviewer_exactly_one:
  "NewAccessReviewer None None =
     Inl (ErrorsNew ''one of either kubeConfig or kubeClient must be a non-nil value'') \<and>
   NewAccessReviewer (Some kConfig) (Some kClient) =
     Inl (ErrorsNew ''only one of either kubeConfig or kubeClient must be a non-nil value'') \<and>
   NewAccessReviewer (Some kConfig) None = Inr \<lparr>kubeConfig = Some kConfig, kubeClient = None\<rparr> \<and>
   NewAccessReviewer None (Some kClient) = Inr \<lparr>kubeConfig = None, kubeClient = Some kClient\<rparr>"
  by (simp add: NewAccessReviewer_def)

text \<open>
  Claim C9. When the call to the authority succeeds with an evaluation error in the
  response, \<open>makeSubjectRulesReviewForUser\<close> writes one log line and returns the rules of
  the response without an error; it returns an error iff the call itself fails.
\<close>

theorem makeSubjectRulesReviewForUser_partial_results:
  "(create (if namespace = [] then ''$ Invalid $'' else namespace) = Inr sarrStatus \<and>
      EvaluationError sarrStatus \<noteq> [] \<longrightarrow>
      makeSubjectRulesReviewForUser (Some create) namespace =
        ([EvaluationErrorLine (if namespace = [] then ''$ Invalid $'' else namespace)
            (EvaluationError sarrStatus)],
         Inr (ResourceRules sarrStatus))) \<and>
   (isl (snd (makeSubjectRulesReviewForUser (Some create) namespace)) \<longleftrightarrow>
      isl (create (if namespace = [] then ''$ Invalid $'' else namespace)))"
  by (auto simp: makeSubjectRulesReviewForUser_def Let_def split: sum.splits)

text \<open>A response that carries the red rule and an evaluation error.\<close>

theorem makeSubjectRulesReviewForUser_partial_results_witness:
  "partialClient ''$ Invalid $'' =
     Inr \<lparr>ResourceRules = [redRule], EvaluationError = ''webhook authorizer timed out''\<rparr> \<and>
   makeSubjectRulesReviewForUser (Some partialClient) [] =
     ([EvaluationErrorLine ''$ Invalid $'' ''webhook authorizer timed out''], Inr [redRule])"
  using makeSubjectRulesReviewForUser_partial_results
          [where create = partialClient and namespace = "[]"
             and sarrStatus =
               "\<lparr>ResourceRules = [redRule], EvaluationError = ''webhook authorizer timed out''\<rparr>"]
  by (simp add: partialClient_def)

text \<open>
  Claim C10. When names are requested, the keys of the map of a successful
  \<open>GetResourceAccess\<close> are exactly the requested names, and the keys of the map of a
  successful \<open>GetMetricsAccess\<close> are exactly the requested clusters.
\<close>

theorem requested_names_are_the_keys:
  "(resourcenames \<noteq> [] \<and> GetResourceAccess kclient gr resourcenames namespace = Inr res
      \<longrightarrow> dom (map_of res) = set resourcenames) \<and>
   (valid_iteration it \<and> clusters \<noteq> [] \<and>
    GetMetricsAccess newForConfig it r userToken clusters = Inr metrics
      \<longrightarrow> dom (map_of metrics) = set clusters)"
proof -
  have "dom (map_of metrics) = set clusters"
    if v: "valid_iteration it" and ne: "clusters \<noteq> []"
      and ok: "GetMetricsAccess newForConfig it r userToken clusters = Inr metrics"
  proof -
    from GetMetricsAccess_Inr [OF v ok] obtain kc acls
      where acls: "GetResourceAccess kc (groupRes MetricsACLConfig) clusters [] = Inr acls"
        and m: "\<And>c. map_of metrics c =
                  (case map_of acls c of
                     None \<Rightarrow> None
                   | Some verbs \<Rightarrow>
                       if nsWithMetricsAccess it c verbs \<noteq> [] \<or> c \<in> set clusters
                       then Some (nsWithMetricsAccess it c verbs) else None)"
      by blast
    from acls ne have d: "dom (map_of acls) = set clusters" by (rule GetResourceAccess_dom)
    have mem: "map_of acls c \<noteq> None \<longleftrightarrow> c \<in> set clusters" for c
      using d by (metis domIff)
    show ?thesis
    proof (rule set_eqI)
      fix c
      show "c \<in> dom (map_of metrics) \<longleftrightarrow> c \<in> set clusters"
        using mem [of c] by (cases "map_of acls c") (auto simp: m domIff)
    qed
  qed
  moreover have "dom (map_of res) = set resourcenames"
    if "resourcenames \<noteq> []" and "GetResourceAccess kclient gr resourcenames namespace = Inr res"
    using that(2) that(1) by (rule GetResourceAccess_dom)
  ultimately show ?thesis by simp
qed

text \<open>The red administrator asks for \<open>devcluster1\<close> and \<open>blah\<close>, and for \<open>devcluster1\<close>.\<close>

theorem requested_names_are_the_keys_witness:
  "GetResourceAccess (Some redClient) managedClusters [''devcluster1'', ''blah''] [] =
     Inr [(''devcluster1'', [''metrics/nsred1'', ''metrics/nsred2'']), (''blah'', [])] \<and>
   dom (map_of [(''devcluster1'', [''metrics/nsred1'', ''metrics/nsred2'']), (''blah'', [])])
     = set [''devcluster1'', ''blah''] \<and>
   valid_iteration reverseOrder \<and>
   GetMetricsAccess noNewForConfig reverseOrder redReviewer [] [''devcluster1''] =
     Inr [(''devcluster1'', [''nsred2'', ''nsred1''])] \<and>
   dom (map_of [(''devcluster1'', [''nsred2'', ''nsred1''])]) = set [''devcluster1'']"
  using requested_names_are_the_keys
          [where resourcenames = "[''devcluster1'', ''blah'']" and kclient = "Some redClient"
             and gr = managedClusters and namespace = "[]"
             and res = "[(''devcluster1'', [''metrics/nsred1'', ''metrics/nsred2'']), (''blah'', [])]"
             and it = reverseOrder and clusters = "[''devcluster1'']"
             and newForConfig = noNewForConfig and r = redReviewer and userToken = "[]"
             and metrics = "[(''devcluster1'', [''nsred2'', ''nsred1''])]"]
    GetResourceAccess_redClient valid_reverseOrder GetMetricsAccess_red_reverseOrder
  by simp

end
